theory Spec2Isabelle
  imports Main "HOL-Library.Sublist" "HOL-Library.Char_ord"
begin

section \<open>Syncify: the recommendation pipeline of \<^verbatim>\<open>syncify.py\<close>\<close>

text \<open>
  The three functions of \<^verbatim>\<open>syncify.py\<close> that hold logic of their own are embedded:
  \<^verbatim>\<open>get_spotify_tracks\<close>, \<^verbatim>\<open>get_youtube_music_recommendations\<close> and
  \<^verbatim>\<open>filter_and_get_top_recommendations\<close>. Python dictionaries with a fixed set of
  keys are records; a key that may be absent is an \<open>option\<close> field; every exception
  the source can raise is a value of \<open>py_error\<close> and the functions return
  \<open>py_error + 'a\<close>. Python strings are modelled as \<open>string\<close>. The library
  functions \<^verbatim>\<open>str.lower\<close>, \<^verbatim>\<open>fuzz.ratio\<close> and \<^verbatim>\<open>ytmusic.search\<close> are
  parameters of the model: every general theorem holds whatever they compute.
\<close>

subsection \<open>Data model\<close>

datatype py_error = KeyError | IndexError | ValueError | AttributeError

text \<open>The dictionaries appended to \<^verbatim>\<open>song_list\<close> by \<^verbatim>\<open>get_spotify_tracks\<close>.\<close>

record track =
  track_name :: string
  track_artist :: string
  track_id :: string

text \<open>
  The dictionaries appended to \<^verbatim>\<open>recommendations\<close>. The thumbnail is \<open>None\<close>
  when the default \<^verbatim>\<open>[{'url': None}]\<close> was used.
\<close>

record recommendation =
  title :: string
  artist :: string
  album :: string
  thumbnail :: "string option"
  views :: string
  spotify_url :: string

subsection \<open>String primitives of Python\<close>

text \<open>
  \<^verbatim>\<open>str.lower\<close> lowers every cased character of Unicode. It is not defined here: the
  functions below take it as their first argument \<open>lower\<close>.
\<close>

text \<open>\<^verbatim>\<open>str.find\<close>: the index of the leftmost occurrence of \<open>sep\<close>, if any.\<close>

fun find_str :: "string \<Rightarrow> string \<Rightarrow> nat option" where
  "find_str sep [] = (if sep = [] then Some 0 else None)"
| "find_str sep (c # cs) =
     (if prefix sep (c # cs) then Some 0 else map_option Suc (find_str sep cs))"

text \<open>
  \<^verbatim>\<open>str.split(sep)\<close>: cut at the leftmost occurrence of the separator and go on
  behind it. Python rejects an empty separator; the only call of the source passes the
  literal \<^verbatim>\<open>" by "\<close>, so that branch is never taken.
\<close>

function split_str :: "string \<Rightarrow> string \<Rightarrow> string list" where
  "split_str sep s =
     (if sep = [] then [s]
      else case find_str sep s of
             None \<Rightarrow> [s]
           | Some i \<Rightarrow> take i s # split_str sep (drop (i + length sep) s))"
  by pat_completeness auto
termination
proof (relation "measure (\<lambda>(sep, s). length s)")
  show "wf (measure (\<lambda>(sep, s). length s))" by simp
next
  fix sep s :: string and i :: nat
  assume "sep \<noteq> []" and "find_str sep s = Some i"
  then have "s \<noteq> []" by (cases s) auto
  with \<open>sep \<noteq> []\<close> show "((sep, drop (i + length sep) s), (sep, s)) \<in> measure (\<lambda>(sep, s). length s)"
    by (cases s) auto
qed

subsection \<open>\<^verbatim>\<open>filter_and_get_top_recommendations\<close>\<close>

text \<open>The key of a playlist track: \<^verbatim>\<open>f"{track['name'].lower()} by {track['artist'].lower()}"\<close>.\<close>

definition track_key :: "(string \<Rightarrow> string) \<Rightarrow> track \<Rightarrow> string" where
  "track_key lower t = lower (track_name t) @ '' by '' @ lower (track_artist t)"

text \<open>The key of a candidate: \<^verbatim>\<open>f"{rec['title'].lower()} by {rec['artist'].lower()}"\<close>.\<close>

definition rec_key :: "(string \<Rightarrow> string) \<Rightarrow> recommendation \<Rightarrow> string" where
  "rec_key lower r = lower (title r) @ '' by '' @ lower (artist r)"

definition playlist_songs :: "(string \<Rightarrow> string) \<Rightarrow> track list \<Rightarrow> string set" where
  "playlist_songs lower spotify_tracks = set (map (track_key lower) spotify_tracks)"

text \<open>
  \<^verbatim>\<open>recommendation_count[rec_key] += 1\<close> on a \<^verbatim>\<open>defaultdict(int)\<close>. A Python
  dictionary keeps its keys in insertion order, and \<^verbatim>\<open>items()\<close> lists them so: the
  table is an association list, a new key goes to the end with the count 1, a known key
  is updated where it stands.
\<close>

fun increment :: "(string \<times> int) list \<Rightarrow> string \<Rightarrow> (string \<times> int) list" where
  "increment [] k = [(k, 1)]"
| "increment ((k', c) # m) k =
     (if k' = k then (k', c + 1) # m else (k', c) # increment m k)"

text \<open>The counting loop over \<^verbatim>\<open>all_recommendations\<close>.\<close>

fun count_loop :: "(string \<Rightarrow> string) \<Rightarrow> string set \<Rightarrow> (string \<times> int) list \<Rightarrow> recommendation list \<Rightarrow> (string \<times> int) list" where
  "count_loop lower seen m [] = m"
| "count_loop lower seen m (r # rs) =
     (if rec_key lower r \<notin> seen then count_loop lower seen (increment m (rec_key lower r)) rs
      else count_loop lower seen m rs)"

definition recommendation_count :: "(string \<Rightarrow> string) \<Rightarrow> track list \<Rightarrow> recommendation list \<Rightarrow> (string \<times> int) list" where
  "recommendation_count lower spotify_tracks all_recommendations =
     count_loop lower (playlist_songs lower spotify_tracks) [] all_recommendations"

text \<open>
  \<^verbatim>\<open>sorted(items, key=lambda x: x[1], reverse=True)[:10]\<close>. Python's sort is
  stable, also with \<^verbatim>\<open>reverse=True\<close>: entries of equal count keep their order.
  \<open>sort_key\<close> is the stable insertion sort; descending order is ascending order of
  the negated count.
\<close>

definition top_recommendations :: "(string \<Rightarrow> string) \<Rightarrow> track list \<Rightarrow> recommendation list \<Rightarrow> (string \<times> int) list" where
  "top_recommendations lower spotify_tracks all_recommendations =
     take 10 (sort_key (\<lambda>x. - snd x) (recommendation_count lower spotify_tracks all_recommendations))"

text \<open>
  \<^verbatim>\<open>next((rec for rec in all_recommendations if rec['title'].lower() == song_title
  and rec['artist'].lower() == song_artist), None)\<close>
\<close>

definition rec_info :: "(string \<Rightarrow> string) \<Rightarrow> recommendation list \<Rightarrow> string \<Rightarrow> string \<Rightarrow> recommendation option" where
  "rec_info lower all_recommendations song_title song_artist =
     find (\<lambda>r. lower (title r) = song_title \<and> lower (artist r) = song_artist) all_recommendations"

text \<open>
  The final loop. Unpacking \<^verbatim>\<open>rec_key.split(" by ")\<close> into two names raises
  \<^verbatim>\<open>ValueError\<close> unless the list has exactly two elements. A record is a non-empty
  dictionary, so \<^verbatim>\<open>if rec_info:\<close> only tests for \<^verbatim>\<open>None\<close>.
\<close>

fun final_loop ::
  "(string \<Rightarrow> string) \<Rightarrow> recommendation list \<Rightarrow> recommendation list \<Rightarrow> (string \<times> int) list \<Rightarrow> py_error + recommendation list" where
  "final_loop lower all_recommendations final_recommendations [] = Inr final_recommendations"
| "final_loop lower all_recommendations final_recommendations ((k, _) # rest) =
     (case split_str '' by '' k of
        [song_title, song_artist] \<Rightarrow>
          (case rec_info lower all_recommendations song_title song_artist of
             None \<Rightarrow> final_loop lower all_recommendations final_recommendations rest
           | Some r \<Rightarrow> final_loop lower all_recommendations (final_recommendations @ [r]) rest)
      | _ \<Rightarrow> Inl ValueError)"

definition filter_and_get_top_recommendations ::
  "(string \<Rightarrow> string) \<Rightarrow> track list \<Rightarrow> recommendation list \<Rightarrow> py_error + recommendation list" where
  "filter_and_get_top_recommendations lower spotify_tracks all_recommendations =
     final_loop lower all_recommendations [] (top_recommendations lower spotify_tracks all_recommendations)"

subsection \<open>\<^verbatim>\<open>get_spotify_tracks\<close>\<close>

text \<open>
  The response of \<^verbatim>\<open>sp.playlist_tracks\<close> is the input. A key that may be missing from
  a dictionary is an \<open>option\<close> field, \<open>None\<close> standing for the missing key. An artist
  dictionary is reduced to its \<^verbatim>\<open>'name'\<close> entry; an item is reduced to its
  \<^verbatim>\<open>'track'\<close> entry, \<open>None\<close> when \<^verbatim>\<open>item.get('track')\<close> is \<^verbatim>\<open>None\<close>.
\<close>

record sp_track =
  sp_name :: "string option"
  sp_artists :: "string option list option"
  sp_id :: "string option"

record sp_results =
  sp_items :: "sp_track option list option"

text \<open>
  \<^verbatim>\<open>track['artists'][0].get('name', 'Unknown Artist') if track.get('artists')
  else 'Unknown Artist'\<close>: a missing and an empty list are both falsy.
\<close>

definition artist_name_of :: "sp_track \<Rightarrow> string" where
  "artist_name_of t =
     (case sp_artists t of
        None \<Rightarrow> ''Unknown Artist''
      | Some [] \<Rightarrow> ''Unknown Artist''
      | Some (a # _) \<Rightarrow> (case a of None \<Rightarrow> ''Unknown Artist'' | Some n \<Rightarrow> n))"

text \<open>\<^verbatim>\<open>track.get('name', 'Unknown Song')\<close>\<close>

definition song_name_of :: "sp_track \<Rightarrow> string" where
  "song_name_of t = (case sp_name t of None \<Rightarrow> ''Unknown Song'' | Some n \<Rightarrow> n)"

text \<open>The body of the loop for a track that is not null; \<^verbatim>\<open>track['id']\<close> has no default.\<close>

definition song_entry :: "sp_track \<Rightarrow> py_error + track" where
  "song_entry t =
     (let song_name = song_name_of t; artist_name = artist_name_of t
      in case sp_id t of
           None \<Rightarrow> Inl KeyError
         | Some i \<Rightarrow> Inr \<lparr>track_name = song_name, track_artist = artist_name, track_id = i\<rparr>)"

fun spotify_loop :: "track list \<Rightarrow> sp_track option list \<Rightarrow> py_error + track list" where
  "spotify_loop song_list [] = Inr song_list"
| "spotify_loop song_list (None # items) = spotify_loop song_list items"
| "spotify_loop song_list (Some t # items) =
     (case song_entry t of
        Inl e \<Rightarrow> Inl e
      | Inr song \<Rightarrow> spotify_loop (song_list @ [song]) items)"

definition get_spotify_tracks :: "sp_results \<Rightarrow> py_error + track list" where
  "get_spotify_tracks results =
     (let tracks = (case sp_items results of None \<Rightarrow> [] | Some items \<Rightarrow> items)
      in if tracks = [] then Inr [] else spotify_loop [] tracks)"

subsection \<open>\<^verbatim>\<open>get_youtube_music_recommendations\<close>\<close>

text \<open>
  A search result of \<^verbatim>\<open>ytmusic.search\<close>. Artists are reduced to their \<^verbatim>\<open>'name'\<close>
  entry and thumbnails to their \<^verbatim>\<open>'url'\<close> entry, \<open>None\<close> standing for a dictionary
  without that key. The album is missing, null, or a dictionary with or without a name.
\<close>

datatype yt_album = AlbumMissing | AlbumNull | AlbumDict "string option"

record yt_result =
  yt_title :: "string option"
  yt_artists :: "string option list option"
  yt_album :: yt_album
  yt_thumbnails :: "string option list option"
  yt_views :: "string option"

text \<open>\<^verbatim>\<open>result.get('artists', [{'name': 'Unknown Artist'}])[0]['name']\<close>\<close>

definition result_artist :: "yt_result \<Rightarrow> py_error + string" where
  "result_artist result =
     (case yt_artists result of
        None \<Rightarrow> Inr ''Unknown Artist''
      | Some [] \<Rightarrow> Inl IndexError
      | Some (a # _) \<Rightarrow> (case a of None \<Rightarrow> Inl KeyError | Some n \<Rightarrow> Inr n))"

text \<open>\<^verbatim>\<open>result.get('thumbnails', [{'url': None}])[0]['url']\<close>\<close>

definition result_thumbnail :: "yt_result \<Rightarrow> py_error + string option" where
  "result_thumbnail result =
     (case yt_thumbnails result of
        None \<Rightarrow> Inr None
      | Some [] \<Rightarrow> Inl IndexError
      | Some (t # _) \<Rightarrow> (case t of None \<Rightarrow> Inl KeyError | Some u \<Rightarrow> Inr (Some u)))"

text \<open>\<^verbatim>\<open>result.get('album', {}).get('name', 'N/A')\<close>\<close>

definition result_album :: "yt_result \<Rightarrow> py_error + string" where
  "result_album result =
     (case yt_album result of
        AlbumMissing \<Rightarrow> Inr ''N/A''
      | AlbumNull \<Rightarrow> Inl AttributeError
      | AlbumDict None \<Rightarrow> Inr ''N/A''
      | AlbumDict (Some n) \<Rightarrow> Inr n)"

text \<open>
  The test of the \<^verbatim>\<open>continue\<close>. \<^verbatim>\<open>fuzz.ratio\<close> belongs to the library fuzzywuzzy
  and is a parameter of the model.
\<close>

definition is_exact_match ::
  "(string \<Rightarrow> string) \<Rightarrow> (string \<Rightarrow> string \<Rightarrow> int) \<Rightarrow> string \<Rightarrow> string \<Rightarrow> string \<Rightarrow> string \<Rightarrow> bool" where
  "is_exact_match lower ratio song_name artist_name result_title artist' =
     (ratio (lower result_title) (lower song_name) > 90 \<and>
      ratio (lower artist') (lower artist_name) > 90)"

text \<open>
  The body of the loop: \<open>Inr None\<close> is the \<^verbatim>\<open>continue\<close>, \<open>Inr (Some r)\<close> the
  appended dictionary. The statements are evaluated in the order of the source: artist,
  title and match test, thumbnail, album.
\<close>

definition recommend ::
  "(string \<Rightarrow> string) \<Rightarrow> (string \<Rightarrow> string \<Rightarrow> int) \<Rightarrow> string \<Rightarrow> string \<Rightarrow> string \<Rightarrow> yt_result
   \<Rightarrow> py_error + recommendation option" where
  "recommend lower ratio song_name artist_name track_id' result =
     (case result_artist result of
        Inl e \<Rightarrow> Inl e
      | Inr artist' \<Rightarrow>
          (case yt_title result of
             None \<Rightarrow> Inl KeyError
           | Some result_title \<Rightarrow>
               if is_exact_match lower ratio song_name artist_name result_title artist' then Inr None
               else (case result_thumbnail result of
                       Inl e \<Rightarrow> Inl e
                     | Inr thumbnail' \<Rightarrow>
                         (case result_album result of
                            Inl e \<Rightarrow> Inl e
                          | Inr album' \<Rightarrow>
                              Inr (Some \<lparr>title = result_title, artist = artist', album = album',
                                         thumbnail = thumbnail',
                                         views = (case yt_views result of None \<Rightarrow> ''0'' | Some v \<Rightarrow> v),
                                         spotify_url = ''https://open.spotify.com/track/'' @ track_id'\<rparr>)))))"

fun youtube_loop ::
  "(yt_result \<Rightarrow> py_error + recommendation option) \<Rightarrow> recommendation list \<Rightarrow> yt_result list
   \<Rightarrow> py_error + recommendation list" where
  "youtube_loop body recommendations [] = Inr recommendations"
| "youtube_loop body recommendations (result # results) =
     (case body result of
        Inl e \<Rightarrow> Inl e
      | Inr None \<Rightarrow> youtube_loop body recommendations results
      | Inr (Some r) \<Rightarrow> youtube_loop body (recommendations @ [r]) results)"

text \<open>
  \<^verbatim>\<open>ytmusic.search\<close> is the external call and a parameter of the model: it maps the
  query string to the list of results.
\<close>

definition get_youtube_music_recommendations ::
  "(string \<Rightarrow> string) \<Rightarrow> (string \<Rightarrow> string \<Rightarrow> int) \<Rightarrow> (string \<Rightarrow> yt_result list) \<Rightarrow> string \<Rightarrow> string \<Rightarrow> string
   \<Rightarrow> py_error + recommendation list" where
  "get_youtube_music_recommendations lower ratio search song_name artist_name track_id' =
     (let search_results = search (song_name @ '' '' @ artist_name)
      in if search_results \<noteq> []
         then youtube_loop (recommend lower ratio song_name artist_name track_id') [] (take 10 search_results)
         else Inr [])"

subsection \<open>Notions used to state the properties of the ranking\<close>

text \<open>The keys of the candidates that are not excluded by the playlist, in candidate order.\<close>

definition candidate_keys :: "(string \<Rightarrow> string) \<Rightarrow> track list \<Rightarrow> recommendation list \<Rightarrow> string list" where
  "candidate_keys lower spotify_tracks all_recommendations =
     filter (\<lambda>k. k \<notin> playlist_songs lower spotify_tracks) (map (rec_key lower) all_recommendations)"

text \<open>How often a key occurs among the candidates that are not excluded.\<close>

definition occurrences :: "(string \<Rightarrow> string) \<Rightarrow> track list \<Rightarrow> recommendation list \<Rightarrow> string \<Rightarrow> int" where
  "occurrences lower spotify_tracks all_recommendations k =
     int (count_list (candidate_keys lower spotify_tracks all_recommendations) k)"

text \<open>The distinct elements of a list in the order of their first occurrence.\<close>

fun first_seen :: "'a list \<Rightarrow> 'a list" where
  "first_seen [] = []"
| "first_seen (x # xs) = x # filter (\<lambda>y. y \<noteq> x) (first_seen xs)"

text \<open>The keys retained after the count-sort and the cut to ten entries.\<close>

definition retained_keys :: "(string \<Rightarrow> string) \<Rightarrow> track list \<Rightarrow> recommendation list \<Rightarrow> string list" where
  "retained_keys lower spotify_tracks all_recommendations =
     map fst (top_recommendations lower spotify_tracks all_recommendations)"

text \<open>
  What one pass of the final loop looks up for a key that splits into two parts: the
  first candidate whose lowered title and artist are these parts.
\<close>

definition recovered :: "(string \<Rightarrow> string) \<Rightarrow> recommendation list \<Rightarrow> string \<Rightarrow> recommendation option" where
  "recovered lower all_recommendations k =
     (case split_str '' by '' k of
        [song_title, song_artist] \<Rightarrow> rec_info lower all_recommendations song_title song_artist
      | _ \<Rightarrow> None)"

text \<open>The position at which a key occurs first in a list (its length if it never occurs).\<close>

definition first_index :: "'a list \<Rightarrow> 'a \<Rightarrow> nat" where
  "first_index xs k = length (takeWhile (\<lambda>x. x \<noteq> k) xs)"

subsection \<open>Example inputs\<close>

text \<open>
  Concrete candidates and playlists at which the theorems below are instantiated. They
  are ASCII strings, on which \<^verbatim>\<open>str.lower\<close> lowers the letters \<open>A\<close> to \<open>Z\<close> and
  leaves every other character as it is.
\<close>

definition lower_char :: "char \<Rightarrow> char" where
  "lower_char c =
     (if CHR ''A'' \<le> c \<and> c \<le> CHR ''Z'' then char_of (of_char c + (32::nat)) else c)"

definition ascii_lower :: "string \<Rightarrow> string" where
  "ascii_lower s = map lower_char s"

definition candidate :: "string \<Rightarrow> string \<Rightarrow> string \<Rightarrow> recommendation" where
  "candidate t a v =
     \<lparr>title = t, artist = a, album = ''N/A'', thumbnail = None, views = v,
      spotify_url = ''https://open.spotify.com/track/1''\<rparr>"

definition eleven_songs :: "recommendation list" where
  "eleven_songs = map (\<lambda>t. candidate t ''X'' ''1'')
     [''a'', ''b'', ''c'', ''d'', ''e'', ''f'', ''g'', ''h'', ''i'', ''j'', ''k'']"

definition song_twice :: "recommendation list" where
  "song_twice =
     [candidate ''Song A'' ''X'' ''10'', candidate ''song a'' ''x'' ''99'', candidate ''Other'' ''Y'' ''5'']"

definition playlist_song :: "track list" where
  "playlist_song = [\<lparr>track_name = ''Song'', track_artist = ''Artist'', track_id = ''1''\<rparr>]"

definition tied_songs :: "recommendation list" where
  "tied_songs =
     [candidate ''B'' ''x'' ''1'', candidate ''A'' ''x'' ''2'', candidate ''b'' ''X'' ''3'',
      candidate ''a'' ''X'' ''4'', candidate ''C'' ''x'' ''5'']"

definition drive_by_ranked :: "recommendation list" where
  "drive_by_ranked =
     [candidate ''Drive By'' ''Train'' ''1'', candidate ''B'' ''x'' ''1'', candidate ''B'' ''x'' ''1'',
      candidate ''Drive By'' ''Train'' ''1'', candidate ''C'' ''x'' ''1'', candidate ''B'' ''x'' ''1'',
      candidate ''B'' ''x'' ''1'', candidate ''Drive By'' ''Train'' ''1'', candidate ''B'' ''x'' ''1'']"

definition near_matches :: "recommendation list" where
  "near_matches = [candidate ''SONG'' ''artist'' ''1'', candidate ''Songs'' ''Artist'' ''2'']"

definition yt_hit :: "string \<Rightarrow> string \<Rightarrow> yt_result" where
  "yt_hit t a =
     \<lparr>yt_title = Some t, yt_artists = Some [Some a], yt_album = AlbumMissing,
      yt_thumbnails = None, yt_views = None\<rparr>"

definition sample_ratio :: "string \<Rightarrow> string \<Rightarrow> int" where
  "sample_ratio x y =
     (if x = y then 100
      else if (x, y) = (''sonq'', ''song'') then 91
      else if (x, y) = (''artists'', ''artist'') then 90
      else 0)"

definition twelve_hits :: "string \<Rightarrow> yt_result list" where
  "twelve_hits query =
     [yt_hit ''SONG'' ''ARTIST'', yt_hit ''Sonq'' ''Artist'', yt_hit ''Song'' ''Artists'',
      yt_hit ''Other'' ''Artist'', yt_hit ''Song'' ''Band''] @
     map (\<lambda>t. yt_hit t ''Artist'') [''a'', ''b'', ''c'', ''d'', ''e'', ''f'', ''g'']"

definition items_with_missing_id :: sp_results where
  "items_with_missing_id =
     \<lparr>sp_items = Some [None,
        Some \<lparr>sp_name = None, sp_artists = None, sp_id = Some ''7''\<rparr>,
        Some \<lparr>sp_name = Some ''Song'', sp_artists = Some [Some ''Artist''], sp_id = None\<rparr>]\<rparr>"

definition items_with_defaults :: sp_results where
  "items_with_defaults =
     \<lparr>sp_items = Some [None,
        Some \<lparr>sp_name = None, sp_artists = None, sp_id = Some ''7''\<rparr>,
        Some \<lparr>sp_name = Some ''Solo'', sp_artists = Some [], sp_id = Some ''8''\<rparr>,
        Some \<lparr>sp_name = Some ''Duo'', sp_artists = Some [None, Some ''Second''], sp_id = Some ''9''\<rparr>,
        Some \<lparr>sp_name = Some ''Song'', sp_artists = Some [Some ''Artist'', Some ''Guest''],
             sp_id = Some ''10''\<rparr>]\<rparr>"

section \<open>Properties of the string primitives\<close>

declare split_str.simps [simp del]

lemma find_str_Some_decomp:
  "find_str sep s = Some i \<Longrightarrow> s = take i s @ sep @ drop (i + length sep) s"
proof (induction s arbitrary: i)
  case Nil
  then show ?case by (simp split: if_splits)
next
  case (Cons c cs)
  show ?case
  proof (cases "prefix sep (c # cs)")
    case True
    with Cons.prems have "i = 0" by simp
    with True show ?thesis by (auto simp: prefix_def)
  next
    case False
    with Cons.prems obtain j where j: "find_str sep cs = Some j" "i = Suc j" by auto
    from Cons.IH [OF j(1)] j(2) show ?thesis by simp
  qed
qed

lemma find_str_occurrence:
  "\<exists>i \<le> length p. find_str sep (p @ sep @ q) = Some i"
proof (induction p)
  case Nil
  show ?case
  proof (cases "sep @ q")
    case Nil
    then show ?thesis by simp
  next
    case (Cons c cs)
    then have "prefix sep (c # cs)" by (metis prefixI)
    with Cons show ?thesis by simp
  qed
next
  case (Cons c p)
  then obtain i where "i \<le> length p" "find_str sep (p @ sep @ q) = Some i" by blast
  then show ?case by auto
qed

lemma find_str_None_iff:
  "sep \<noteq> [] \<Longrightarrow> find_str sep s = None \<longleftrightarrow> \<not> sublist sep s"
proof
  assume "sep \<noteq> []" "find_str sep s = None"
  show "\<not> sublist sep s"
  proof
    assume "sublist sep s"
    then obtain p q where "s = p @ sep @ q" by (auto simp: sublist_def)
    with find_str_occurrence [of p sep q] \<open>find_str sep s = None\<close> show False by auto
  qed
next
  assume "sep \<noteq> []" "\<not> sublist sep s"
  show "find_str sep s = None"
  proof (cases "find_str sep s")
    case (Some i)
    from find_str_Some_decomp [OF Some] have "sublist sep s"
      by (metis sublist_appendI)
    with \<open>\<not> sublist sep s\<close> show ?thesis by simp
  qed simp
qed

lemma split_str_not_Nil: "split_str sep s \<noteq> []"
  by (subst split_str.simps) (simp split: option.splits)

lemma split_str_no_sep: "find_str sep s = None \<Longrightarrow> split_str sep s = [s]"
  by (subst split_str.simps) simp

lemma split_str_sep:
  "sep \<noteq> [] \<Longrightarrow> find_str sep s = Some i \<Longrightarrow>
   split_str sep s = take i s # split_str sep (drop (i + length sep) s)"
  by (subst split_str.simps) simp

lemma split_str_two_parts:
  assumes "sep \<noteq> []" and "split_str sep k = [t, a]"
  shows "k = t @ sep @ a"
proof (cases "find_str sep k")
  case None
  with assms show ?thesis by (simp add: split_str_no_sep)
next
  case (Some i)
  let ?r = "drop (i + length sep) k"
  from assms Some have t: "t = take i k" and r: "split_str sep ?r = [a]"
    by (simp_all add: split_str_sep)
  have "find_str sep ?r = None"
  proof (cases "find_str sep ?r")
    case (Some j)
    with r \<open>sep \<noteq> []\<close> show ?thesis by (simp add: split_str_sep split_str_not_Nil)
  qed simp
  with r have "a = ?r" by (simp add: split_str_no_sep)
  with t find_str_Some_decomp [OF Some] show ?thesis by simp
qed

lemma split_str_sublist_length:
  assumes "sep \<noteq> []" and "sublist sep s"
  shows "2 \<le> length (split_str sep s)"
proof -
  from assms obtain i where i: "find_str sep s = Some i"
    using find_str_None_iff [of sep s] by (cases "find_str sep s") auto
  have "split_str sep (drop (i + length sep) s) \<noteq> []"
    by (rule split_str_not_Nil)
  then have "1 \<le> length (split_str sep (drop (i + length sep) s))"
    by (cases "split_str sep (drop (i + length sep) s)") auto
  with i \<open>sep \<noteq> []\<close> show ?thesis by (simp add: split_str_sep)
qed

lemma split_str_key_three_parts:
  assumes "sep \<noteq> []" and "sublist sep t \<or> sublist sep a"
  shows "3 \<le> length (split_str sep (t @ sep @ a))"
proof -
  from assms(2) obtain p q where pq: "t @ sep @ a = p @ sep @ q" "length p \<le> length t" "sublist sep q"
  proof
    assume "sublist sep t"
    then obtain p q where "t = p @ sep @ q" by (auto simp: sublist_def)
    then have "t @ sep @ a = p @ sep @ (q @ sep @ a)" "length p \<le> length t" "sublist sep (q @ sep @ a)"
      by (auto intro: sublist_appendI)
    then show thesis by (rule that)
  next
    assume "sublist sep a"
    then show thesis using that [of t a] by simp
  qed
  from find_str_occurrence [of p sep q] pq(1) obtain i where
    i: "i \<le> length p" "find_str sep (t @ sep @ a) = Some i" by auto
  have "drop (i + length sep) (p @ sep @ q) = drop (i + length sep) (p @ sep) @ q"
    using i(1) by simp
  then have "sublist sep (drop (i + length sep) (t @ sep @ a))"
    using pq(1,3) by (metis sublist_append_leftI sublist_order.order_trans)
  from split_str_sublist_length [OF assms(1) this] i(2) assms(1) show ?thesis
    by (simp add: split_str_sep)
qed

section \<open>Properties of the counting loop\<close>

lemma set_first_seen: "set (first_seen xs) = set xs"
  by (induction xs) auto

lemma distinct_first_seen: "distinct (first_seen xs)"
  by (induction xs) (auto simp: set_first_seen)

lemma first_seen_snoc:
  "first_seen (xs @ [x]) = (if x \<in> set xs then first_seen xs else first_seen xs @ [x])"
  by (induction xs) (auto simp: set_first_seen)

lemma filter_neq_filter: "\<not> P x \<Longrightarrow> filter (\<lambda>y. y \<noteq> x) (filter P ys) = filter P ys"
  by (induction ys) auto

lemma first_seen_filter: "first_seen (filter P xs) = filter P (first_seen xs)"
proof (induction xs)
  case Nil
  show ?case by simp
next
  case (Cons x xs)
  show ?case
  proof (cases "P x")
    case True
    moreover have "filter P (filter (\<lambda>y. y \<noteq> x) (first_seen xs)) =
        filter (\<lambda>y. y \<noteq> x) (filter P (first_seen xs))"
      by (simp add: conj_commute)
    ultimately show ?thesis using Cons by simp
  next
    case False
    then have "filter (\<lambda>y. y \<noteq> x) (filter P (first_seen xs)) = filter P (first_seen xs)"
      by (rule filter_neq_filter)
    moreover have "filter P (filter (\<lambda>y. y \<noteq> x) (first_seen xs)) =
        filter (\<lambda>y. y \<noteq> x) (filter P (first_seen xs))"
      by (simp add: conj_commute)
    ultimately show ?thesis using False Cons by simp
  qed
qed

lemma first_index_Cons:
  "first_index (x # xs) k = (if k = x then 0 else Suc (first_index xs k))"
  by (simp add: first_index_def)

lemma sorted_first_seen:
  "sorted_wrt (\<lambda>a b. first_index xs a < first_index xs b) (first_seen xs)"
proof (induction xs)
  case Nil
  show ?case by simp
next
  case (Cons x xs)
  have "sorted_wrt (\<lambda>a b. first_index xs a < first_index xs b) (filter (\<lambda>y. y \<noteq> x) (first_seen xs))"
    using Cons.IH by (rule sorted_wrt_filter)
  then have "sorted_wrt (\<lambda>a b. first_index (x # xs) a < first_index (x # xs) b)
      (filter (\<lambda>y. y \<noteq> x) (first_seen xs))"
    by (rule sorted_wrt_mono_rel [rotated]) (simp add: first_index_Cons)
  then show ?case by (simp add: first_index_Cons)
qed

lemma keys_increment:
  "map fst (increment m k) = (if k \<in> set (map fst m) then map fst m else map fst m @ [k])"
  by (induction m k rule: increment.induct) auto

lemma map_of_increment:
  "map_of (increment m k) k' =
     (if k' = k then Some (case map_of m k of None \<Rightarrow> 1 | Some c \<Rightarrow> c + 1) else map_of m k')"
  by (induction m k rule: increment.induct) auto

lemma count_loop_fold:
  "count_loop lower seen m rs =
     fold (\<lambda>k m. increment m k) (filter (\<lambda>k. k \<notin> seen) (map (rec_key lower) rs)) m"
  by (induction rs arbitrary: m) auto

lemma keys_fold_increment:
  "map fst (fold (\<lambda>k m. increment m k) ks []) = first_seen ks"
proof (induction ks rule: rev_induct)
  case Nil
  show ?case by simp
next
  case (snoc x xs)
  have "set (map fst (fold (\<lambda>k m. increment m k) xs [])) = set xs"
    by (simp only: snoc.IH set_first_seen)
  with snoc.IH show ?case
    by (simp add: keys_increment first_seen_snoc del: set_map)
qed

lemma map_of_fold_increment:
  "map_of (fold (\<lambda>k m. increment m k) ks []) k =
     (if k \<in> set ks then Some (int (count_list ks k)) else None)"
proof (induction ks rule: rev_induct)
  case Nil
  show ?case by simp
next
  case (snoc x xs)
  then show ?case by (auto simp: map_of_increment)
qed

lemma keys_recommendation_count:
  "map fst (recommendation_count lower tracks recs) = first_seen (candidate_keys lower tracks recs)"
  by (simp add: recommendation_count_def candidate_keys_def count_loop_fold keys_fold_increment)

lemma distinct_recommendation_count:
  "distinct (map fst (recommendation_count lower tracks recs))"
  by (simp add: keys_recommendation_count distinct_first_seen)

lemma map_of_recommendation_count:
  "map_of (recommendation_count lower tracks recs) k =
     (if k \<in> set (candidate_keys lower tracks recs) then Some (occurrences lower tracks recs k) else None)"
  by (simp add: recommendation_count_def candidate_keys_def occurrences_def count_loop_fold
      map_of_fold_increment)

lemma recommendation_count_entry:
  "(k, c) \<in> set (recommendation_count lower tracks recs) \<Longrightarrow> c = occurrences lower tracks recs k"
  using map_of_recommendation_count [of lower tracks recs k] distinct_recommendation_count [of lower tracks recs]
  by (auto split: if_splits)

lemma recommendation_count_snd:
  "x \<in> set (recommendation_count lower tracks recs) \<Longrightarrow> snd x = occurrences lower tracks recs (fst x)"
  using recommendation_count_entry [of "fst x" "snd x" lower tracks recs] by simp

lemma sorted_recommendation_count_keys:
  "sorted_wrt (\<lambda>k k'. first_index (map (rec_key lower) recs) k < first_index (map (rec_key lower) recs) k')
     (map fst (recommendation_count lower tracks recs))"
  unfolding keys_recommendation_count candidate_keys_def first_seen_filter
  by (rule sorted_wrt_filter) (rule sorted_first_seen)

lemma count_list_filter: "P k \<Longrightarrow> count_list (filter P xs) k = count_list xs k"
  by (induction xs) auto

lemma count_list_map: "count_list (map f xs) k = length (filter (\<lambda>x. f x = k) xs)"
  by (induction xs) auto

lemma set_candidate_keys:
  "set (candidate_keys lower tracks recs) = rec_key lower ` set recs - playlist_songs lower tracks"
  by (auto simp: candidate_keys_def)

lemma candidate_keys_all_excluded:
  assumes "\<forall>r \<in> set recs. \<exists>t \<in> set tracks. rec_key lower r = track_key lower t"
  shows "candidate_keys lower tracks recs = []"
  using assms by (auto simp: candidate_keys_def playlist_songs_def filter_empty_conv)

lemma excluded_iff_key:
  assumes "r \<in> set recs"
  shows "map_of (recommendation_count lower tracks recs) (rec_key lower r) =
           (if \<exists>t \<in> set tracks. rec_key lower r = track_key lower t then None
            else Some (int (length (filter (\<lambda>r'. rec_key lower r' = rec_key lower r) recs))))"
proof (cases "\<exists>t \<in> set tracks. rec_key lower r = track_key lower t")
  case True
  then have "rec_key lower r \<notin> set (candidate_keys lower tracks recs)"
    by (auto simp: candidate_keys_def playlist_songs_def)
  with True show ?thesis by (simp add: map_of_recommendation_count)
next
  case False
  then have n: "rec_key lower r \<notin> playlist_songs lower tracks"
    by (auto simp: playlist_songs_def)
  with assms have "rec_key lower r \<in> set (candidate_keys lower tracks recs)"
    by (simp add: candidate_keys_def)
  moreover from n have "occurrences lower tracks recs (rec_key lower r) =
      int (length (filter (\<lambda>r'. rec_key lower r' = rec_key lower r) recs))"
    by (simp add: occurrences_def candidate_keys_def count_list_filter count_list_map)
  ultimately show ?thesis using False by (simp add: map_of_recommendation_count)
qed

section \<open>Properties of the count-sort and of the retained keys\<close>

lemma insort_key_stable_wrt:
  assumes "sorted_wrt (\<lambda>a b. f a = f b \<longrightarrow> R a b) ys"
    and "\<forall>y \<in> set ys. f x = f y \<longrightarrow> R x y"
  shows "sorted_wrt (\<lambda>a b. f a = f b \<longrightarrow> R a b) (insort_key f x ys)"
  using assms by (induction ys) (auto simp: set_insort_key)

lemma sort_key_stable_wrt:
  assumes "sorted_wrt R xs"
  shows "sorted_wrt (\<lambda>a b. f a = f b \<longrightarrow> R a b) (sort_key f xs)"
  using assms
proof (induction xs)
  case Nil
  show ?case by simp
next
  case (Cons x xs)
  then have "sorted_wrt (\<lambda>a b. f a = f b \<longrightarrow> R a b) (sort_key f xs)"
    and "\<forall>y \<in> set (sort_key f xs). f x = f y \<longrightarrow> R x y"
    by simp_all
  then show ?case
    unfolding sort_key_simps by (rule insort_key_stable_wrt)
qed

lemma retained_keys_eq:
  "retained_keys lower tracks recs =
     take 10 (map fst (sort_key (\<lambda>x. - snd x) (recommendation_count lower tracks recs)))"
  by (simp add: retained_keys_def top_recommendations_def take_map)

lemma distinct_sorted_keys:
  "distinct (map fst (sort_key (\<lambda>x. - snd x) (recommendation_count lower tracks recs)))"
  using distinct_recommendation_count [of lower tracks recs]
  by (simp add: distinct_map)

lemma distinct_retained_keys: "distinct (retained_keys lower tracks recs)"
  by (simp add: retained_keys_eq distinct_sorted_keys)

lemma set_retained_keys: "set (retained_keys lower tracks recs) \<subseteq> set (candidate_keys lower tracks recs)"
proof -
  have "set (retained_keys lower tracks recs) \<subseteq> set (map fst (recommendation_count lower tracks recs))"
    unfolding retained_keys_eq by (rule order_trans [OF set_take_subset]) simp
  then show ?thesis by (simp only: keys_recommendation_count set_first_seen)
qed

lemma length_retained_keys:
  "length (retained_keys lower tracks recs) = min 10 (card (set (candidate_keys lower tracks recs)))"
proof -
  have "length (recommendation_count lower tracks recs) = length (first_seen (candidate_keys lower tracks recs))"
    using keys_recommendation_count [of lower tracks recs] by (metis length_map)
  also have "\<dots> = card (set (candidate_keys lower tracks recs))"
    using distinct_card [OF distinct_first_seen, of "candidate_keys lower tracks recs"]
    by (simp add: set_first_seen)
  finally show ?thesis by (simp add: retained_keys_eq min.commute)
qed

lemma sorted_retained_keys:
  "sorted_wrt (\<lambda>k k'. occurrences lower tracks recs k' \<le> occurrences lower tracks recs k) (retained_keys lower tracks recs)"
proof -
  let ?m = "recommendation_count lower tracks recs"
  let ?s = "sort_key (\<lambda>x. - snd x) ?m"
  have "sorted (map (\<lambda>x. - snd x) ?s)" by (rule sorted_sort_key)
  then have "sorted_wrt (\<lambda>x y. snd y \<le> snd x) ?s" by (simp add: sorted_map)
  then have "sorted_wrt (\<lambda>x y. occurrences lower tracks recs (fst y) \<le> occurrences lower tracks recs (fst x)) ?s"
    by (rule sorted_wrt_mono_rel [rotated]) (simp add: recommendation_count_snd)
  then have "sorted_wrt (\<lambda>k k'. occurrences lower tracks recs k' \<le> occurrences lower tracks recs k) (map fst ?s)"
    by (simp add: sorted_wrt_map)
  then show ?thesis unfolding retained_keys_eq by (rule sorted_wrt_take)
qed

lemma ties_retained_keys:
  "sorted_wrt (\<lambda>k k'. occurrences lower tracks recs k = occurrences lower tracks recs k' \<longrightarrow>
        first_index (map (rec_key lower) recs) k < first_index (map (rec_key lower) recs) k')
     (retained_keys lower tracks recs)"
proof -
  let ?m = "recommendation_count lower tracks recs"
  let ?pos = "first_index (map (rec_key lower) recs)"
  let ?s = "sort_key (\<lambda>x. - snd x) ?m"
  have "sorted_wrt (\<lambda>x y. ?pos (fst x) < ?pos (fst y)) ?m"
    using sorted_recommendation_count_keys [of lower recs tracks] by (simp add: sorted_wrt_map)
  then have "sorted_wrt (\<lambda>x y. - snd x = - snd y \<longrightarrow> ?pos (fst x) < ?pos (fst y)) ?s"
    by (rule sort_key_stable_wrt)
  then have "sorted_wrt (\<lambda>x y. occurrences lower tracks recs (fst x) = occurrences lower tracks recs (fst y) \<longrightarrow>
      ?pos (fst x) < ?pos (fst y)) ?s"
    by (rule sorted_wrt_mono_rel [rotated]) (simp add: recommendation_count_snd)
  then have "sorted_wrt (\<lambda>k k'. occurrences lower tracks recs k = occurrences lower tracks recs k' \<longrightarrow>
      ?pos k < ?pos k') (map fst ?s)"
    by (simp add: sorted_wrt_map)
  then show ?thesis unfolding retained_keys_eq by (rule sorted_wrt_take)
qed

section \<open>Properties of the final loop\<close>

lemma length_two_iff: "length xs = 2 \<longleftrightarrow> (\<exists>t a. xs = [t, a])"
  by (cases xs; cases "tl xs") auto

lemma final_loop_eq:
  "final_loop lower recs acc tops =
     (if \<forall>k \<in> set (map fst tops). length (split_str '' by '' k) = 2
      then Inr (acc @ List.map_filter (recovered lower recs) (map fst tops))
      else Inl ValueError)"
proof (induction tops arbitrary: acc)
  case Nil
  show ?case by (simp add: map_filter_simps)
next
  case (Cons x tops)
  obtain k c where x: "x = (k, c)" by (cases x)
  show ?case
  proof (cases "length (split_str '' by '' k) = 2")
    case True
    then obtain t a where ta: "split_str '' by '' k = [t, a]"
      by (auto simp: length_two_iff)
    show ?thesis
    proof (cases "rec_info lower recs t a")
      case None
      with ta x True Cons.IH [of acc] show ?thesis
        by (simp add: recovered_def map_filter_simps)
    next
      case (Some r)
      with ta x True Cons.IH [of "acc @ [r]"] show ?thesis
        by (simp add: recovered_def map_filter_simps)
    qed
  next
    case False
    then have "\<nexists>t a. split_str '' by '' k = [t, a]"
      by (auto simp: length_two_iff)
    then have "final_loop lower recs acc ((k, c) # tops) = Inl ValueError"
      by (auto split: list.splits)
    with False x show ?thesis by simp
  qed
qed

lemma filter_and_get_top_recommendations_eq:
  "filter_and_get_top_recommendations lower tracks recs =
     (if \<forall>k \<in> set (retained_keys lower tracks recs). length (split_str '' by '' k) = 2
      then Inr (List.map_filter (recovered lower recs) (retained_keys lower tracks recs))
      else Inl ValueError)"
  unfolding filter_and_get_top_recommendations_def retained_keys_def
  by (subst final_loop_eq) simp

lemma recovered_Some_key:
  assumes "recovered lower recs k = Some r"
  shows "rec_key lower r = k"
proof -
  from assms obtain t a where ta: "split_str '' by '' k = [t, a]" and f: "rec_info lower recs t a = Some r"
    by (auto simp: recovered_def split: list.splits)
  from f have "lower (title r) = t" "lower (artist r) = a"
    by (auto simp: rec_info_def find_Some_iff)
  moreover from split_str_two_parts [OF _ ta] have "k = t @ '' by '' @ a" by simp
  ultimately show ?thesis by (simp add: rec_key_def)
qed

lemma keys_map_filter_recovered:
  "map (rec_key lower) (List.map_filter (recovered lower recs) ks) = filter (\<lambda>k. recovered lower recs k \<noteq> None) ks"
  by (induction ks) (auto simp: map_filter_simps recovered_Some_key split: option.splits)

lemma length_map_filter_le: "length (List.map_filter f xs) \<le> length xs"
  by (induction xs) (auto simp: map_filter_simps split: option.splits)

lemma list_all2_map_filter:
  "list_all2 (\<lambda>y x. f x = Some y) (List.map_filter f xs) (filter (\<lambda>x. f x \<noteq> None) xs)"
  by (induction xs) (auto simp: map_filter_simps)

lemma output_eq:
  "filter_and_get_top_recommendations lower tracks recs = Inr out \<Longrightarrow>
   out = List.map_filter (recovered lower recs) (retained_keys lower tracks recs)"
  by (simp add: filter_and_get_top_recommendations_eq split: if_splits)

lemma output_keys:
  "filter_and_get_top_recommendations lower tracks recs = Inr out \<Longrightarrow>
   map (rec_key lower) out = filter (\<lambda>k. recovered lower recs k \<noteq> None) (retained_keys lower tracks recs)"
  by (drule output_eq) (simp only: keys_map_filter_recovered)

lemma sorted_output:
  assumes "filter_and_get_top_recommendations lower tracks recs = Inr out"
  shows "sorted_wrt (\<lambda>r r'. occurrences lower tracks recs (rec_key lower r') \<le> occurrences lower tracks recs (rec_key lower r)) out"
proof -
  have "sorted_wrt (\<lambda>k k'. occurrences lower tracks recs k' \<le> occurrences lower tracks recs k) (map (rec_key lower) out)"
    unfolding output_keys [OF assms] by (rule sorted_wrt_filter) (rule sorted_retained_keys)
  then show ?thesis by (simp add: sorted_wrt_map)
qed

section \<open>Properties of the loops over the playlist items and over the search results\<close>

lemma spotify_loop_KeyError:
  "\<exists>t. Some t \<in> set items \<and> sp_id t = None \<Longrightarrow> spotify_loop song_list items = Inl KeyError"
proof (induction song_list items rule: spotify_loop.induct)
  case (1 song_list)
  then show ?case by simp
next
  case (2 song_list items)
  then show ?case by simp
next
  case (3 song_list t items)
  show ?case
  proof (cases "sp_id t")
    case None
    then show ?thesis by (simp add: song_entry_def)
  next
    case (Some i)
    with "3.prems" have "\<exists>t. Some t \<in> set items \<and> sp_id t = None" by auto
    with Some "3.IH" show ?thesis by (simp add: song_entry_def)
  qed
qed

lemma spotify_loop_Inr:
  "spotify_loop song_list items = Inr out \<Longrightarrow>
   \<exists>new. out = song_list @ new \<and>
     list_all2 (\<lambda>s t. track_name s = song_name_of t \<and> track_artist s = artist_name_of t \<and>
                  sp_id t = Some (track_id s))
       new (List.map_filter (\<lambda>i. i) items)"
proof (induction song_list items rule: spotify_loop.induct)
  case (1 song_list)
  then show ?case by (simp add: map_filter_simps)
next
  case (2 song_list items)
  then show ?case by (simp add: map_filter_simps)
next
  case (3 song_list t items)
  from "3.prems" obtain s where s: "song_entry t = Inr s"
    and l: "spotify_loop (song_list @ [s]) items = Inr out"
    by (auto split: sum.splits)
  from "3.IH" [OF s l] obtain new where new: "out = (song_list @ [s]) @ new"
    "list_all2 (\<lambda>s t. track_name s = song_name_of t \<and> track_artist s = artist_name_of t \<and>
                  sp_id t = Some (track_id s)) new (List.map_filter (\<lambda>i. i) items)"
    by blast
  from s have "track_name s = song_name_of t \<and> track_artist s = artist_name_of t \<and>
      sp_id t = Some (track_id s)"
    by (auto simp: song_entry_def split: option.splits)
  with new have "out = song_list @ (s # new) \<and>
     list_all2 (\<lambda>s t. track_name s = song_name_of t \<and> track_artist s = artist_name_of t \<and>
                  sp_id t = Some (track_id s))
       (s # new) (List.map_filter (\<lambda>i. i) (Some t # items))"
    by (simp add: map_filter_simps)
  then show ?case by blast
qed

lemma youtube_loop_Inr:
  assumes "youtube_loop body recommendations results = Inr out"
    and "\<And>result. body result = Inr None \<Longrightarrow> M result"
    and "\<And>result r. body result = Inr (Some r) \<Longrightarrow> \<not> M result \<and> R r result"
  shows "\<exists>new. out = recommendations @ new \<and>
     list_all2 R new (filter (\<lambda>result. \<not> M result) results)"
  using assms(1)
proof (induction results arbitrary: recommendations)
  case Nil
  then show ?case by simp
next
  case (Cons result results)
  from Cons.prems obtain x where x: "body result = Inr x"
    by (auto split: sum.splits)
  show ?case
  proof (cases x)
    case None
    with x Cons.prems have "youtube_loop body recommendations results = Inr out" by simp
    from Cons.IH [OF this] obtain new where "out = recommendations @ new"
      "list_all2 R new (filter (\<lambda>result. \<not> M result) results)" by blast
    moreover from x None have "M result" by (simp add: assms(2))
    ultimately show ?thesis by auto
  next
    case (Some r)
    with x Cons.prems have "youtube_loop body (recommendations @ [r]) results = Inr out" by simp
    from Cons.IH [OF this] obtain new where new: "out = (recommendations @ [r]) @ new"
      "list_all2 R new (filter (\<lambda>result. \<not> M result) results)" by blast
    from x Some have "\<not> M result \<and> R r result" by (simp add: assms(3))
    with new have "out = recommendations @ (r # new) \<and>
        list_all2 R (r # new) (filter (\<lambda>result. \<not> M result) (result # results))" by simp
    then show ?thesis by blast
  qed
qed

lemma recommend_skip:
  assumes "recommend lower ratio song_name artist_name tid result = Inr None"
  shows "\<exists>t a. yt_title result = Some t \<and>
           (yt_artists result = None \<and> a = ''Unknown Artist'' \<or>
            (\<exists>as. yt_artists result = Some (Some a # as))) \<and>
           90 < ratio (lower t) (lower song_name) \<and> 90 < ratio (lower a) (lower artist_name)"
  using assms
  by (auto simp: recommend_def result_artist_def is_exact_match_def
      split: sum.splits option.splits list.splits if_splits)

lemma recommend_append:
  assumes "recommend lower ratio song_name artist_name tid result = Inr (Some r)"
  shows "\<not> (\<exists>t a. yt_title result = Some t \<and>
           (yt_artists result = None \<and> a = ''Unknown Artist'' \<or>
            (\<exists>as. yt_artists result = Some (Some a # as))) \<and>
           90 < ratio (lower t) (lower song_name) \<and> 90 < ratio (lower a) (lower artist_name)) \<and>
         yt_title result = Some (title r) \<and>
         (yt_artists result = None \<and> artist r = ''Unknown Artist'' \<or>
          (\<exists>as. yt_artists result = Some (Some (artist r) # as)))"
  using assms
  by (auto simp: recommend_def result_artist_def is_exact_match_def
      split: sum.splits option.splits list.splits if_splits)

section \<open>The claims\<close>

subsection \<open>Claim C1\<close>

text \<open>
  Claim C1 says that every retained key gets, as its record in the output, the first
  candidate whose lowered title and lowered artist make up the key. The code joins
  title and artist with \<^verbatim>\<open>" by "\<close> and takes the key apart again with
  \<^verbatim>\<open>split(" by ")\<close>, and misses the claim where a title ends in \<^verbatim>\<open>" by"\<close>: for the
  only candidate ``Drive By'' by ``Train'' the key \<^verbatim>\<open>"drive by by train"\<close> is retained,
  it is the key of that candidate, and it comes apart as \<^verbatim>\<open>"drive"\<close> and
  \<^verbatim>\<open>"by train"\<close>; no candidate has that title and artist, and the function returns the
  empty list.
\<close>

theorem retained_key_without_record:
  "retained_keys ascii_lower [] [candidate ''Drive By'' ''Train'' ''1M''] = [''drive by by train''] \<and>
   rec_key ascii_lower (candidate ''Drive By'' ''Train'' ''1M'') = ''drive by by train'' \<and>
   filter_and_get_top_recommendations ascii_lower [] [candidate ''Drive By'' ''Train'' ''1M''] = Inr []"
  by code_simp

subsection \<open>Claim C2\<close>

text \<open>
  Claim C2. If some retained key does not split on \<^verbatim>\<open>" by "\<close> into exactly two
  parts, the function raises \<^verbatim>\<open>ValueError\<close>; this is the case in particular when the
  key is that of a candidate whose lowered title or lowered artist contains
  \<^verbatim>\<open>" by "\<close>. The function is therefore not total.
\<close>

theorem unpacking_raises_ValueError:
  assumes "k \<in> set (retained_keys lower tracks recs)"
    and "length (split_str '' by '' k) \<noteq> 2 \<or>
         (\<exists>r \<in> set recs. rec_key lower r = k \<and>
            (sublist '' by '' (lower (title r)) \<or> sublist '' by '' (lower (artist r))))"
  shows "filter_and_get_top_recommendations lower tracks recs = Inl ValueError"
proof -
  from assms(2) have "length (split_str '' by '' k) \<noteq> 2"
  proof
    assume "\<exists>r \<in> set recs. rec_key lower r = k \<and>
            (sublist '' by '' (lower (title r)) \<or> sublist '' by '' (lower (artist r)))"
    then obtain r where "rec_key lower r = k"
      "sublist '' by '' (lower (title r)) \<or> sublist '' by '' (lower (artist r))" by blast
    with split_str_key_three_parts [of "'' by ''" "lower (title r)" "lower (artist r)"]
    show ?thesis by (simp add: rec_key_def)
  qed
  with assms(1) show ?thesis
    by (auto simp: filter_and_get_top_recommendations_eq)
qed

text \<open>
  Claim C2 at a concrete input: ``Stand By Me'' by ``Ben E. King''.
\<close>

theorem unpacking_raises_ValueError_witness:
  "''stand by me by ben e. king'' \<in> set (retained_keys ascii_lower [] [candidate ''Stand By Me'' ''Ben E. King'' ''5M'']) \<and>
   (\<exists>r \<in> set [candidate ''Stand By Me'' ''Ben E. King'' ''5M''].
      rec_key ascii_lower r = ''stand by me by ben e. king'' \<and>
      (sublist '' by '' (ascii_lower (title r)) \<or> sublist '' by '' (ascii_lower (artist r)))) \<and>
   filter_and_get_top_recommendations ascii_lower [] [candidate ''Stand By Me'' ''Ben E. King'' ''5M''] = Inl ValueError"
proof -
  have h1: "''stand by me by ben e. king'' \<in> set (retained_keys ascii_lower [] [candidate ''Stand By Me'' ''Ben E. King'' ''5M''])"
    by code_simp
  have h2: "\<exists>r \<in> set [candidate ''Stand By Me'' ''Ben E. King'' ''5M''].
      rec_key ascii_lower r = ''stand by me by ben e. king'' \<and>
      (sublist '' by '' (ascii_lower (title r)) \<or> sublist '' by '' (ascii_lower (artist r)))"
    by code_simp
  from unpacking_raises_ValueError [OF h1 disjI2, OF h2] h1 h2 show ?thesis by blast
qed

subsection \<open>Claim C3\<close>

text \<open>
  Claim C3. Whenever the function returns a list, that list has at most 10 entries and
  at most as many entries as there are distinct candidate keys outside the playlist's set
  of seen keys.
\<close>

theorem output_length_bounded:
  assumes "filter_and_get_top_recommendations lower tracks recs = Inr out"
  shows "length out \<le> 10 \<and> length out \<le> card (rec_key lower ` set recs - playlist_songs lower tracks)"
proof -
  have "length out \<le> length (retained_keys lower tracks recs)"
    unfolding output_eq [OF assms] by (rule length_map_filter_le)
  then show ?thesis
    by (simp add: length_retained_keys set_candidate_keys)
qed

text \<open>
  Claim C3 at a concrete input: of eleven distinct candidates ten are returned.
\<close>

theorem output_length_bounded_witness:
  "filter_and_get_top_recommendations ascii_lower [] eleven_songs = Inr (take 10 eleven_songs) \<and>
   length (take 10 eleven_songs) \<le> 10 \<and>
   length (take 10 eleven_songs) \<le> card (rec_key ascii_lower ` set eleven_songs - playlist_songs ascii_lower [])"
proof -
  have h: "filter_and_get_top_recommendations ascii_lower [] eleven_songs = Inr (take 10 eleven_songs)"
    by code_simp
  from output_length_bounded [OF h] h show ?thesis by simp
qed

subsection \<open>Claim C4\<close>

text \<open>
  Claim C4 says that the output is ordered by occurrence count and that candidates whose
  keys \<open>A\<close>, \<open>B\<close>, \<open>C\<close> occur 3, 5 and 1 times are returned in the order \<open>B\<close>, \<open>A\<close>,
  \<open>C\<close>. The code misses the example where a key does not come apart into its title and
  artist: with \<open>A\<close> the song ``Drive By'' by ``Train'', the three keys occur 3, 5 and 1
  times and are retained in the order \<open>B\<close>, \<open>A\<close>, \<open>C\<close>, but the function returns the
  records of \<open>B\<close> and \<open>C\<close> only.
\<close>

theorem count_order_example_loses_record:
  "occurrences ascii_lower [] drive_by_ranked ''drive by by train'' = 3 \<and>
   occurrences ascii_lower [] drive_by_ranked ''b by x'' = 5 \<and>
   occurrences ascii_lower [] drive_by_ranked ''c by x'' = 1 \<and>
   retained_keys ascii_lower [] drive_by_ranked = [''b by x'', ''drive by by train'', ''c by x''] \<and>
   filter_and_get_top_recommendations ascii_lower [] drive_by_ranked =
     Inr [candidate ''B'' ''x'' ''1'', candidate ''C'' ''x'' ''1'']"
  by code_simp

subsection \<open>Claim C5\<close>

text \<open>
  Claim C5. A candidate is left out of the count exactly when its lowered key
  \<^verbatim>\<open>"{title} by {artist}"\<close> equals the lowered key \<^verbatim>\<open>"{name} by {artist}"\<close> of some
  playlist track: then the table has no counter for its key. Otherwise its key has a
  counter, which counts the candidate together with every candidate of the same key;
  this holds in particular for a candidate that merely resembles a playlist track.
\<close>

theorem excluded_iff_key_of_playlist_track:
  assumes "r \<in> set recs"
  shows "map_of (recommendation_count lower tracks recs)
           (lower (title r) @ '' by '' @ lower (artist r)) =
           (if \<exists>t \<in> set tracks.
                 lower (title r) @ '' by '' @ lower (artist r) =
                 lower (track_name t) @ '' by '' @ lower (track_artist t)
            then None
            else Some (int (length (filter
                   (\<lambda>r'. lower (title r') @ '' by '' @ lower (artist r') =
                         lower (title r) @ '' by '' @ lower (artist r)) recs))))"
  using excluded_iff_key [OF assms, of lower tracks]
  by (simp add: rec_key_def track_key_def)

text \<open>
  Claim C5 at a concrete input: for the playlist track ``Song'' by ``Artist'', the
  candidate ``SONG'' by ``artist'' is excluded and the candidate ``Songs'' by ``Artist''
  is counted.
\<close>

theorem excluded_iff_key_of_playlist_track_witness:
  "map_of (recommendation_count ascii_lower playlist_song near_matches) ''song by artist'' = None \<and>
   map_of (recommendation_count ascii_lower playlist_song near_matches) ''songs by artist'' = Some 1"
proof -
  have m: "candidate ''SONG'' ''artist'' ''1'' \<in> set near_matches"
    "candidate ''Songs'' ''Artist'' ''2'' \<in> set near_matches"
    by (simp_all add: near_matches_def)
  have k: "ascii_lower (title (candidate ''SONG'' ''artist'' ''1'')) @ '' by '' @
        ascii_lower (artist (candidate ''SONG'' ''artist'' ''1'')) = ''song by artist''"
    "ascii_lower (title (candidate ''Songs'' ''Artist'' ''2'')) @ '' by '' @
        ascii_lower (artist (candidate ''Songs'' ''Artist'' ''2'')) = ''songs by artist''"
    by code_simp+
  have e: "\<exists>t \<in> set playlist_song.
      ''song by artist'' = ascii_lower (track_name t) @ '' by '' @ ascii_lower (track_artist t)"
    by code_simp
  have n: "\<not> (\<exists>t \<in> set playlist_song.
      ''songs by artist'' = ascii_lower (track_name t) @ '' by '' @ ascii_lower (track_artist t))"
    by code_simp
  have c: "int (length (filter
      (\<lambda>r'. ascii_lower (title r') @ '' by '' @ ascii_lower (artist r') = ''songs by artist'')
      near_matches)) = 1"
    by code_simp
  from excluded_iff_key_of_playlist_track [OF m(1), where lower = ascii_lower and tracks = playlist_song]
    excluded_iff_key_of_playlist_track [OF m(2), where lower = ascii_lower and tracks = playlist_song]
  show ?thesis unfolding k using e n c by simp
qed

subsection \<open>Claim C6\<close>

text \<open>
  Claim C6. If the lowered key \<^verbatim>\<open>"{title} by {artist}"\<close> of every candidate equals
  the lowered key of some playlist track, the function returns the empty list.
\<close>

theorem covered_candidates_empty_output:
  assumes "\<forall>r \<in> set recs. \<exists>t \<in> set tracks.
             lower (title r) @ '' by '' @ lower (artist r) =
             lower (track_name t) @ '' by '' @ lower (track_artist t)"
  shows "filter_and_get_top_recommendations lower tracks recs = Inr []"
proof -
  from assms have "\<forall>r \<in> set recs. \<exists>t \<in> set tracks. rec_key lower r = track_key lower t"
    by (simp add: rec_key_def track_key_def)
  then have "candidate_keys lower tracks recs = []"
    by (rule candidate_keys_all_excluded)
  then have "retained_keys lower tracks recs = []"
    using set_retained_keys [of lower tracks recs] by simp
  then show ?thesis
    by (simp add: filter_and_get_top_recommendations_eq map_filter_simps)
qed

text \<open>
  Claim C6 at a concrete input.
\<close>

theorem covered_candidates_empty_output_witness:
  "filter_and_get_top_recommendations ascii_lower playlist_song
     [candidate ''SONG'' ''artist'' ''1'', candidate ''song'' ''ARTIST'' ''2''] = Inr []"
proof -
  have h: "\<forall>r \<in> set [candidate ''SONG'' ''artist'' ''1'', candidate ''song'' ''ARTIST'' ''2''].
      \<exists>t \<in> set playlist_song.
        ascii_lower (title r) @ '' by '' @ ascii_lower (artist r) =
        ascii_lower (track_name t) @ '' by '' @ ascii_lower (track_artist t)"
    by code_simp
  from covered_candidates_empty_output [OF h] show ?thesis .
qed

subsection \<open>Claim C7\<close>

text \<open>
  Claim C7. Whenever the function returns a list, any two of its records whose keys occur
  equally often stand in the order in which their keys first occur in the candidate list:
  the record that stands first has the key that is seen first.
\<close>

theorem ties_in_first_occurrence_order:
  assumes "filter_and_get_top_recommendations lower tracks recs = Inr out"
  shows "sorted_wrt (\<lambda>r r'.
           occurrences lower tracks recs (rec_key lower r) = occurrences lower tracks recs (rec_key lower r') \<longrightarrow>
           first_index (map (rec_key lower) recs) (rec_key lower r) < first_index (map (rec_key lower) recs) (rec_key lower r'))
         out"
proof -
  have "sorted_wrt (\<lambda>k k'. occurrences lower tracks recs k = occurrences lower tracks recs k' \<longrightarrow>
        first_index (map (rec_key lower) recs) k < first_index (map (rec_key lower) recs) k') (map (rec_key lower) out)"
    unfolding output_keys [OF assms] by (rule sorted_wrt_filter) (rule ties_retained_keys)
  then show ?thesis by (simp add: sorted_wrt_map)
qed

text \<open>
  Claim C7 at a concrete input: the keys of \<open>B\<close> and \<open>A\<close> both occur twice, and \<open>B\<close> is
  seen first.
\<close>

theorem ties_in_first_occurrence_order_witness:
  "filter_and_get_top_recommendations ascii_lower [] tied_songs =
     Inr [candidate ''B'' ''x'' ''1'', candidate ''A'' ''x'' ''2'', candidate ''C'' ''x'' ''5''] \<and>
   sorted_wrt (\<lambda>r r'.
       occurrences ascii_lower [] tied_songs (rec_key ascii_lower r) = occurrences ascii_lower [] tied_songs (rec_key ascii_lower r') \<longrightarrow>
       first_index (map (rec_key ascii_lower) tied_songs) (rec_key ascii_lower r) < first_index (map (rec_key ascii_lower) tied_songs) (rec_key ascii_lower r'))
     [candidate ''B'' ''x'' ''1'', candidate ''A'' ''x'' ''2'', candidate ''C'' ''x'' ''5'']"
proof -
  have h: "filter_and_get_top_recommendations ascii_lower [] tied_songs =
     Inr [candidate ''B'' ''x'' ''1'', candidate ''A'' ''x'' ''2'', candidate ''C'' ''x'' ''5'']"
    by code_simp
  from ties_in_first_occurrence_order [OF h] h show ?thesis by simp
qed

subsection \<open>Claim C8\<close>

text \<open>
  Claim C8. Whenever the function returns a list, the keys of the returned records are
  pairwise distinct, and the records correspond one by one, in order, to retained keys:
  each record is the one recovered for its key and has exactly that key.
\<close>

theorem output_deduplicated:
  assumes "filter_and_get_top_recommendations lower tracks recs = Inr out"
  shows "distinct (map (rec_key lower) out) \<and>
         (\<exists>ks. subseq ks (retained_keys lower tracks recs) \<and>
               list_all2 (\<lambda>r k. recovered lower recs k = Some r \<and> rec_key lower r = k) out ks)"
proof
  show "distinct (map (rec_key lower) out)"
    by (simp add: output_keys [OF assms] distinct_retained_keys)
next
  let ?ks = "filter (\<lambda>k. recovered lower recs k \<noteq> None) (retained_keys lower tracks recs)"
  have "list_all2 (\<lambda>r k. recovered lower recs k = Some r) out ?ks"
    unfolding output_eq [OF assms] by (rule list_all2_map_filter)
  then have "list_all2 (\<lambda>r k. recovered lower recs k = Some r \<and> rec_key lower r = k) out ?ks"
    by (rule list_all2_mono) (simp add: recovered_Some_key)
  moreover have "subseq ?ks (retained_keys lower tracks recs)" by simp
  ultimately show "\<exists>ks. subseq ks (retained_keys lower tracks recs) \<and>
      list_all2 (\<lambda>r k. recovered lower recs k = Some r \<and> rec_key lower r = k) out ks"
    by blast
qed

text \<open>
  Claim C8 at a concrete input.
\<close>

theorem output_deduplicated_witness:
  "filter_and_get_top_recommendations ascii_lower [] song_twice =
     Inr [candidate ''Song A'' ''X'' ''10'', candidate ''Other'' ''Y'' ''5''] \<and>
   distinct (map (rec_key ascii_lower) [candidate ''Song A'' ''X'' ''10'', candidate ''Other'' ''Y'' ''5'']) \<and>
   (\<exists>ks. subseq ks (retained_keys ascii_lower [] song_twice) \<and>
      list_all2 (\<lambda>r k. recovered ascii_lower song_twice k = Some r \<and> rec_key ascii_lower r = k)
        [candidate ''Song A'' ''X'' ''10'', candidate ''Other'' ''Y'' ''5''] ks)"
proof -
  have h: "filter_and_get_top_recommendations ascii_lower [] song_twice =
     Inr [candidate ''Song A'' ''X'' ''10'', candidate ''Other'' ''Y'' ''5'']"
    by code_simp
  from output_deduplicated [OF h] h show ?thesis by blast
qed

subsection \<open>Claim C9\<close>

text \<open>
  Claim C9. \<^verbatim>\<open>get_youtube_music_recommendations\<close> depends on the first ten search
  results only: cutting the list that the search returns to ten entries changes nothing.
  When it returns, it returns at most ten records, and these correspond one by one, in
  order, with the same title and artist, to those of the first ten results that are not
  skipped. A result is skipped exactly when both the ratio of its lowered title to the
  lowered song name and the ratio of its lowered artist to the lowered artist name are
  above 90, the artist being the name of the first artist, or \<^verbatim>\<open>'Unknown Artist'\<close>
  for a result without artists.
\<close>

theorem first_ten_results_inspected:
  "get_youtube_music_recommendations lower ratio search song_name artist_name tid =
     get_youtube_music_recommendations lower ratio (\<lambda>query. take 10 (search query))
       song_name artist_name tid \<and>
   (\<forall>out. get_youtube_music_recommendations lower ratio search song_name artist_name tid = Inr out \<longrightarrow>
      length out \<le> 10 \<and>
      list_all2
        (\<lambda>r result. yt_title result = Some (title r) \<and>
           (yt_artists result = None \<and> artist r = ''Unknown Artist'' \<or>
            (\<exists>as. yt_artists result = Some (Some (artist r) # as))))
        out
        (filter
           (\<lambda>result. \<not> (\<exists>t a. yt_title result = Some t \<and>
              (yt_artists result = None \<and> a = ''Unknown Artist'' \<or>
               (\<exists>as. yt_artists result = Some (Some a # as))) \<and>
              90 < ratio (lower t) (lower song_name) \<and> 90 < ratio (lower a) (lower artist_name)))
           (take 10 (search (song_name @ '' '' @ artist_name)))))"
proof (intro conjI allI impI)
  show "get_youtube_music_recommendations lower ratio search song_name artist_name tid =
     get_youtube_music_recommendations lower ratio (\<lambda>query. take 10 (search query))
       song_name artist_name tid"
    by (simp add: get_youtube_music_recommendations_def Let_def)
next
  fix out
  let ?first = "take 10 (search (song_name @ '' '' @ artist_name))"
  let ?M = "\<lambda>result. \<exists>t a. yt_title result = Some t \<and>
              (yt_artists result = None \<and> a = ''Unknown Artist'' \<or>
               (\<exists>as. yt_artists result = Some (Some a # as))) \<and>
              90 < ratio (lower t) (lower song_name) \<and> 90 < ratio (lower a) (lower artist_name)"
  let ?R = "\<lambda>r result. yt_title result = Some (title r) \<and>
           (yt_artists result = None \<and> artist r = ''Unknown Artist'' \<or>
            (\<exists>as. yt_artists result = Some (Some (artist r) # as)))"
  let ?kept = "filter (\<lambda>result. \<not> ?M result) ?first"
  assume a: "get_youtube_music_recommendations lower ratio search song_name artist_name tid = Inr out"
  have l: "list_all2 ?R out ?kept"
  proof (cases "search (song_name @ '' '' @ artist_name) = []")
    case True
    with a show ?thesis by (simp add: get_youtube_music_recommendations_def)
  next
    case False
    with a have "youtube_loop (recommend lower ratio song_name artist_name tid) [] ?first = Inr out"
      by (simp add: get_youtube_music_recommendations_def Let_def)
    then have "\<exists>new. out = [] @ new \<and> list_all2 ?R new ?kept"
    proof (rule youtube_loop_Inr)
      fix result
      assume "recommend lower ratio song_name artist_name tid result = Inr None"
      then show "?M result" by (rule recommend_skip)
    next
      fix result r
      assume "recommend lower ratio song_name artist_name tid result = Inr (Some r)"
      then show "\<not> ?M result \<and> ?R r result" by (rule recommend_append)
    qed
    then show ?thesis by simp
  qed
  then show "list_all2 ?R out ?kept" .
  from l have "length out = length ?kept" by (rule list_all2_lengthD)
  also have "\<dots> \<le> length ?first" by (rule length_filter_le)
  also have "\<dots> \<le> 10" by simp
  finally show "length out \<le> 10" .
qed

text \<open>
  Claim C9 at a concrete input: of twelve results the first ten are read. The first is
  skipped since the lowered titles and artists are equal, the second since both ratios
  are above 90 (91 and 100); the third is kept since the ratio of its artist is 90, the
  fourth and the fifth since only one of the two ratios is above 90.
\<close>

theorem first_ten_results_inspected_witness:
  "get_youtube_music_recommendations ascii_lower sample_ratio twelve_hits ''Song'' ''Artist'' ''1'' =
     Inr (candidate ''Song'' ''Artists'' ''0'' # candidate ''Other'' ''Artist'' ''0'' #
          candidate ''Song'' ''Band'' ''0'' #
          map (\<lambda>t. candidate t ''Artist'' ''0'') [''a'', ''b'', ''c'', ''d'', ''e'']) \<and>
   length (candidate ''Song'' ''Artists'' ''0'' # candidate ''Other'' ''Artist'' ''0'' #
          candidate ''Song'' ''Band'' ''0'' #
          map (\<lambda>t. candidate t ''Artist'' ''0'') [''a'', ''b'', ''c'', ''d'', ''e'']) \<le> 10"
proof -
  have h: "get_youtube_music_recommendations ascii_lower sample_ratio twelve_hits ''Song'' ''Artist'' ''1'' =
     Inr (candidate ''Song'' ''Artists'' ''0'' # candidate ''Other'' ''Artist'' ''0'' #
          candidate ''Song'' ''Band'' ''0'' #
          map (\<lambda>t. candidate t ''Artist'' ''0'') [''a'', ''b'', ''c'', ''d'', ''e''])"
    by code_simp
  from first_ten_results_inspected [where lower = ascii_lower and ratio = sample_ratio
      and search = twelve_hits and song_name = "''Song''" and artist_name = "''Artist''"
      and tid = "''1''"] h
  show ?thesis by blast
qed

subsection \<open>Claim C10\<close>

text \<open>
  Claim C10. \<^verbatim>\<open>get_spotify_tracks\<close> raises \<^verbatim>\<open>KeyError\<close> when some item has a
  track that is not null and lacks the \<^verbatim>\<open>'id'\<close> entry. When it returns, the songs
  correspond one by one to the tracks that are not null (null tracks are skipped), with
  \<^verbatim>\<open>'Unknown Song'\<close> for a missing name, with the name of the first artist, and with
  \<^verbatim>\<open>'Unknown Artist'\<close> for a missing or empty list of artists and for a first artist
  without name.
\<close>

theorem missing_id_raises_KeyError:
  "(\<forall>items. sp_items results = Some items \<and> (\<exists>t. Some t \<in> set items \<and> sp_id t = None) \<longrightarrow>
      get_spotify_tracks results = Inl KeyError) \<and>
   (\<forall>items out. sp_items results = Some items \<and> get_spotify_tracks results = Inr out \<longrightarrow>
      list_all2 (\<lambda>s t.
          track_name s = (case sp_name t of None \<Rightarrow> ''Unknown Song'' | Some n \<Rightarrow> n) \<and>
          track_artist s =
            (case sp_artists t of
               None \<Rightarrow> ''Unknown Artist''
             | Some [] \<Rightarrow> ''Unknown Artist''
             | Some (None # as) \<Rightarrow> ''Unknown Artist''
             | Some (Some n # as) \<Rightarrow> n) \<and>
          sp_id t = Some (track_id s))
        out (List.map_filter (\<lambda>i. i) items)) \<and>
   (sp_items results = None \<longrightarrow> get_spotify_tracks results = Inr [])"
proof (intro conjI allI impI)
  fix items
  assume a: "sp_items results = Some items \<and> (\<exists>t. Some t \<in> set items \<and> sp_id t = None)"
  then have "items \<noteq> []" by auto
  with a spotify_loop_KeyError [of items "[]"] show "get_spotify_tracks results = Inl KeyError"
    by (simp add: get_spotify_tracks_def)
next
  fix items out
  assume a: "sp_items results = Some items \<and> get_spotify_tracks results = Inr out"
  let ?R = "\<lambda>s t. track_name s = song_name_of t \<and> track_artist s = artist_name_of t \<and>
                  sp_id t = Some (track_id s)"
  have "list_all2 ?R out (List.map_filter (\<lambda>i. i) items)"
  proof (cases "items = []")
    case True
    with a show ?thesis by (auto simp: get_spotify_tracks_def map_filter_simps)
  next
    case False
    with a have "spotify_loop [] items = Inr out" by (auto simp: get_spotify_tracks_def)
    from spotify_loop_Inr [OF this] show ?thesis by simp
  qed
  then show "list_all2 (\<lambda>s t.
          track_name s = (case sp_name t of None \<Rightarrow> ''Unknown Song'' | Some n \<Rightarrow> n) \<and>
          track_artist s =
            (case sp_artists t of
               None \<Rightarrow> ''Unknown Artist''
             | Some [] \<Rightarrow> ''Unknown Artist''
             | Some (None # as) \<Rightarrow> ''Unknown Artist''
             | Some (Some n # as) \<Rightarrow> n) \<and>
          sp_id t = Some (track_id s))
        out (List.map_filter (\<lambda>i. i) items)"
    by (rule list_all2_mono)
      (auto simp: song_name_of_def artist_name_of_def split: option.splits list.splits)
next
  assume "sp_items results = None"
  then show "get_spotify_tracks results = Inr []" by (simp add: get_spotify_tracks_def)
qed

text \<open>
  Claim C10 at concrete inputs: a track without \<^verbatim>\<open>'id'\<close>; and tracks without name,
  without artists, with an empty list of artists and with a first artist without name.
\<close>

theorem missing_id_raises_KeyError_witness:
  "get_spotify_tracks items_with_missing_id = Inl KeyError \<and>
   get_spotify_tracks items_with_defaults =
     Inr [\<lparr>track_name = ''Unknown Song'', track_artist = ''Unknown Artist'', track_id = ''7''\<rparr>,
          \<lparr>track_name = ''Solo'', track_artist = ''Unknown Artist'', track_id = ''8''\<rparr>,
          \<lparr>track_name = ''Duo'', track_artist = ''Unknown Artist'', track_id = ''9''\<rparr>,
          \<lparr>track_name = ''Song'', track_artist = ''Artist'', track_id = ''10''\<rparr>]"
proof -
  have i: "sp_items items_with_missing_id = Some [None,
        Some \<lparr>sp_name = None, sp_artists = None, sp_id = Some ''7''\<rparr>,
        Some \<lparr>sp_name = Some ''Song'', sp_artists = Some [Some ''Artist''], sp_id = None\<rparr>]"
    by (simp add: items_with_missing_id_def)
  have "get_spotify_tracks items_with_missing_id = Inl KeyError"
    using missing_id_raises_KeyError [of items_with_missing_id] i by fastforce
  moreover have "get_spotify_tracks items_with_defaults =
     Inr [\<lparr>track_name = ''Unknown Song'', track_artist = ''Unknown Artist'', track_id = ''7''\<rparr>,
          \<lparr>track_name = ''Solo'', track_artist = ''Unknown Artist'', track_id = ''8''\<rparr>,
          \<lparr>track_name = ''Duo'', track_artist = ''Unknown Artist'', track_id = ''9''\<rparr>,
          \<lparr>track_name = ''Song'', track_artist = ''Artist'', track_id = ''10''\<rparr>]"
    by code_simp
  ultimately show ?thesis by simp
qed

end
